theory Spec2Isabelle
  imports Main
begin

section \<open>JavaScript values used by the dispatch registry\<close>

text \<open>
  The registry of \<^verbatim>\<open>src/decorations.ts\<close> handles three kinds of request values: the
  caller address, the request body and the regex capture groups. Each is a JavaScript
  \<^verbatim>\<open>string | undefined\<close>, modelled as \<open>string option\<close> with \<open>None\<close> for \<^verbatim>\<open>undefined\<close>.
  The argument array \<^verbatim>\<open>args\<close> is a sparse array; a hole reads as \<^verbatim>\<open>undefined\<close> and is
  spread as \<^verbatim>\<open>undefined\<close>, so holes and \<^verbatim>\<open>undefined\<close> are both \<open>None\<close>.
\<close>

datatype fault = TypeError | HandlerFault

definition truthy :: "string option \<Rightarrow> bool" where
  \<comment> \<open>JavaScript truthiness of a \<^verbatim>\<open>string | undefined\<close>: \<^verbatim>\<open>!v\<close> holds for \<^verbatim>\<open>undefined\<close> and \<^verbatim>\<open>""\<close>.\<close>
  "truthy v = (case v of None \<Rightarrow> False | Some s \<Rightarrow> s \<noteq> [])"

definition array_get :: "'a option list \<Rightarrow> nat \<Rightarrow> 'a option" where
  \<comment> \<open>\<^verbatim>\<open>xs[i]\<close>: reading past the end of an array gives \<^verbatim>\<open>undefined\<close>.\<close>
  "array_get xs i = (if i < length xs then xs ! i else None)"

definition array_set :: "'a option list \<Rightarrow> nat \<Rightarrow> 'a option \<Rightarrow> 'a option list" where
  \<comment> \<open>\<^verbatim>\<open>xs[i] = v\<close>: writing past the end extends the array, leaving holes.\<close>
  "array_set xs i v =
     (if i < length xs then xs[i := v] else xs @ replicate (i - length xs) None @ [v])"

section \<open>Regular expressions\<close>

text \<open>
  \<^verbatim>\<open>RegExp\<close> is a built-in of the language. The model covers the fragment below, for
  patterns without the \<^verbatim>\<open>g\<close> and \<^verbatim>\<open>y\<close> flags (so \<^verbatim>\<open>test\<close> and \<^verbatim>\<open>exec\<close> do not depend on
  \<^verbatim>\<open>lastIndex\<close>), following the backtracking semantics of ECMAScript:
  alternatives are tried left to right, quantifiers are greedy, the capture groups inside
  a quantified atom are reset at the start of each iteration, an iteration of \<^verbatim>\<open>*\<close> or \<^verbatim>\<open>?\<close>
  that consumes nothing is rejected, and groups are numbered by their opening parenthesis.
\<close>

datatype regex =
    Chr char            \<comment> \<open>a literal character\<close>
  | Dot                 \<comment> \<open>\<^verbatim>\<open>.\<close>\<close>
  | Digit               \<comment> \<open>\<^verbatim>\<open>\d\<close>\<close>
  | Bol                 \<comment> \<open>\<^verbatim>\<open>^\<close>\<close>
  | Eol                 \<comment> \<open>\<^verbatim>\<open>$\<close>\<close>
  | Seq regex regex     \<comment> \<open>\<^verbatim>\<open>rs\<close>\<close>
  | Alt regex regex     \<comment> \<open>\<^verbatim>\<open>r|s\<close>\<close>
  | Star regex          \<comment> \<open>\<^verbatim>\<open>r*\<close>\<close>
  | Plus regex          \<comment> \<open>\<^verbatim>\<open>r+\<close>\<close>
  | Opt regex           \<comment> \<open>\<^verbatim>\<open>r?\<close>\<close>
  | Group regex         \<comment> \<open>\<^verbatim>\<open>(r)\<close>\<close>

fun ngroups :: "regex \<Rightarrow> nat" where
  "ngroups (Seq r s) = ngroups r + ngroups s"
| "ngroups (Alt r s) = ngroups r + ngroups s"
| "ngroups (Star r) = ngroups r"
| "ngroups (Plus r) = ngroups r"
| "ngroups (Opt r) = ngroups r"
| "ngroups (Group r) = Suc (ngroups r)"
| "ngroups _ = 0"

fun weight :: "regex \<Rightarrow> nat" where
  "weight (Seq r s) = Suc (weight r + weight s)"
| "weight (Alt r s) = Suc (weight r + weight s)"
| "weight (Star r) = Suc (weight r)"
| "weight (Plus r) = Suc (Suc (weight r))"
| "weight (Opt r) = Suc (weight r)"
| "weight (Group r) = Suc (weight r)"
| "weight _ = 0"

type_synonym captures = "string option list"
type_synonym mstate = "nat \<times> captures"

definition clear :: "nat \<Rightarrow> nat \<Rightarrow> captures \<Rightarrow> captures" where
  \<comment> \<open>Reset the \<open>n\<close> groups after group \<open>k\<close> to \<^verbatim>\<open>undefined\<close>.\<close>
  "clear k n cs = take k cs @ replicate (min n (length cs - k)) None @ drop (k + n) cs"

text \<open>
  \<open>ms r inp k (p, cs)\<close> lists, in backtracking order, the states in which \<open>r\<close> can stop
  when started at offset \<open>p\<close> of \<open>inp\<close> with captures \<open>cs\<close>; \<open>k\<close> is the number of groups
  opened to the left of \<open>r\<close>, so group number \<open>k + 1\<close> is stored at position \<open>k\<close> of \<open>cs\<close>.
\<close>

function ms :: "regex \<Rightarrow> string \<Rightarrow> nat \<Rightarrow> mstate \<Rightarrow> mstate list" where
  "ms (Chr c) inp k (p, cs) = (if p < length inp \<and> inp ! p = c then [(Suc p, cs)] else [])"
| "ms Dot inp k (p, cs) =
     (if p < length inp \<and> inp ! p \<notin> {CHR 0x0A, CHR 0x0D} then [(Suc p, cs)] else [])"
| "ms Digit inp k (p, cs) =
     (if p < length inp \<and> inp ! p \<in> set ''0123456789'' then [(Suc p, cs)] else [])"
| "ms Bol inp k (p, cs) = (if p = 0 then [(p, cs)] else [])"
| "ms Eol inp k (p, cs) = (if p = length inp then [(p, cs)] else [])"
| "ms (Seq r s) inp k st = concat (map (ms s inp (k + ngroups r)) (ms r inp k st))"
| "ms (Alt r s) inp k st = ms r inp k st @ ms s inp (k + ngroups r) st"
| "ms (Group r) inp k (p, cs) =
     map (\<lambda>(q, cs'). (q, cs'[k := Some (take (q - p) (drop p inp))]))
         (ms r inp (Suc k) (p, cs))"
| "ms (Star r) inp k (p, cs) =
     concat (map (ms (Star r) inp k)
       (filter (\<lambda>(q, _). p < q \<and> q \<le> length inp)
               (ms r inp k (p, clear k (ngroups r) cs))))
     @ [(p, cs)]"
| "ms (Plus r) inp k (p, cs) =
     concat (map (ms (Star r) inp k) (ms r inp k (p, clear k (ngroups r) cs)))"
| "ms (Opt r) inp k (p, cs) =
     filter (\<lambda>(q, _). p < q) (ms r inp k (p, clear k (ngroups r) cs)) @ [(p, cs)]"
  by pat_completeness auto
termination
  by (relation "measures [\<lambda>(r, inp, k, p, cs). weight r,
                          \<lambda>(r, inp, k, p, cs). length inp - p]") auto

definition RegExp_exec :: "regex \<Rightarrow> string \<Rightarrow> string option list option" where
  \<comment> \<open>\<^verbatim>\<open>re.exec(inp)\<close>: the leftmost start offset at which the pattern matches; the result
      array holds the matched substring at index 0 and then the capture groups;
      \<open>None\<close> is \<^verbatim>\<open>null\<close>.\<close>
  "RegExp_exec r inp =
     (case concat (map (\<lambda>i. map (Pair i) (ms r inp 0 (i, replicate (ngroups r) None)))
                       [0..<Suc (length inp)]) of
        [] \<Rightarrow> None
      | (i, (q, cs)) # _ \<Rightarrow> Some (Some (take (q - i) (drop i inp)) # cs))"

definition RegExp_test :: "regex \<Rightarrow> string \<Rightarrow> bool" where
  \<comment> \<open>\<^verbatim>\<open>re.test(inp)\<close> is \<^verbatim>\<open>re.exec(inp) !== null\<close>.\<close>
  "RegExp_test r inp = (RegExp_exec r inp \<noteq> None)"

definition full_pattern_test :: "regex \<Rightarrow> string \<Rightarrow> bool" where
  \<comment> \<open>The specification's "regex full-pattern test": the pattern matches the entire
      input, from offset 0 to its end.\<close>
  "full_pattern_test r inp =
     list_ex (\<lambda>(q, cs). q = length inp) (ms r inp 0 (0, replicate (ngroups r) None))"

fun lit :: "string \<Rightarrow> regex" where
  \<comment> \<open>The pattern of a non-empty run of literal characters.\<close>
  "lit [] = Opt Bol"
| "lit [c] = Chr c"
| "lit (c # cs) = Seq (Chr c) (lit cs)"

section \<open>Route metadata\<close>

datatype Methods = M_get | M_post | M_delete

fun method_name :: "Methods \<Rightarrow> string" where
  "method_name M_get = ''get''"
| "method_name M_post = ''post''"
| "method_name M_delete = ''delete''"

datatype path_pattern = Literal string | Pattern regex

record ResponderDefinition =
  d_key :: string
  d_path :: path_pattern
  d_method :: Methods

record CaptureGrouping =
  g_index :: nat
  g_required :: bool

type_synonym CaptureGroupings = "CaptureGrouping option list"

record 'r Responses =
  r400 :: 'r
  r401 :: 'r

text \<open>
  The decorators keep their metadata in the store of \<^verbatim>\<open>reflect-metadata\<close>. Metadata is
  attached to a class prototype (for a method decorator and a parameter decorator the
  target is the prototype of the class). \<^verbatim>\<open>Reflect.defineMetadata\<close> writes the target's
  own metadata; \<^verbatim>\<open>Reflect.getMetadata\<close> reads the target's own metadata and, when there
  is none, that of the next object on its prototype chain. A prototype is named by a
  number and carries the names of its ancestors, nearest first.

  The route list and the capture list are arrays: the metadata holds a reference to the
  array, and a decorator that finds a list writes to that array in place. The store
  therefore keeps the arrays in a table of their own, indexed by reference, so that two
  classes whose metadata refer to one array see each other's writes.
\<close>

record prototype =
  proto_id :: nat
  proto_parents :: "nat list"

definition prototype_chain :: "prototype \<Rightarrow> nat list" where
  "prototype_chain target = proto_id target # proto_parents target"

record MetadataStore =
  path_own :: "nat \<Rightarrow> nat option"
  path_arrays :: "nat \<Rightarrow> ResponderDefinition list"
  protect_own :: "nat \<Rightarrow> string \<Rightarrow> bool option"
  address_own :: "nat \<Rightarrow> string \<Rightarrow> nat option"
  body_own :: "nat \<Rightarrow> string \<Rightarrow> nat option"
  capture_own :: "nat \<Rightarrow> string \<Rightarrow> nat option"
  capture_arrays :: "nat \<Rightarrow> CaptureGroupings"
  allocated :: nat

fun getMetadata :: "(nat \<Rightarrow> 'a option) \<Rightarrow> nat list \<Rightarrow> 'a option" where
  \<comment> \<open>\<^verbatim>\<open>Reflect.getMetadata\<close> along a prototype chain, given the own metadata of each
      object on it.\<close>
  "getMetadata own [] = None"
| "getMetadata own (c # cs) = (case own c of Some v \<Rightarrow> Some v | None \<Rightarrow> getMetadata own cs)"

definition address :: "prototype \<Rightarrow> string \<Rightarrow> nat \<Rightarrow> MetadataStore \<Rightarrow> MetadataStore" where
  "address target propertyKey parameterIndex st =
     st\<lparr>address_own := (address_own st)(proto_id target :=
          (address_own st (proto_id target))(propertyKey := Some parameterIndex))\<rparr>"

definition body :: "prototype \<Rightarrow> string \<Rightarrow> nat \<Rightarrow> MetadataStore \<Rightarrow> MetadataStore" where
  "body target propertyKey parameterIndex st =
     st\<lparr>body_own := (body_own st)(proto_id target :=
          (body_own st (proto_id target))(propertyKey := Some parameterIndex))\<rparr>"

definition protect :: "prototype \<Rightarrow> string \<Rightarrow> MetadataStore \<Rightarrow> MetadataStore" where
  "protect target propertyKey st =
     st\<lparr>protect_own := (protect_own st)(proto_id target :=
          (protect_own st (proto_id target))(propertyKey := Some True))\<rparr>"

definition capture ::
  "nat \<Rightarrow> bool \<Rightarrow> prototype \<Rightarrow> string \<Rightarrow> nat \<Rightarrow> MetadataStore \<Rightarrow> MetadataStore" where
  \<comment> \<open>\<^verbatim>\<open>existingCaptures\<close> is the array found along the prototype chain, or a new one;
      the write goes to that array, and the target's own metadata is set to it.\<close>
  "capture index required target propertyKey parameterIndex st =
     (let grouping = Some \<lparr>g_index = index, g_required = required\<rparr>
      in case getMetadata (\<lambda>c. capture_own st c propertyKey) (prototype_chain target) of
           Some existingCaptures \<Rightarrow>
             st\<lparr>capture_arrays := (capture_arrays st)(existingCaptures :=
                    array_set (capture_arrays st existingCaptures) parameterIndex grouping),
                capture_own := (capture_own st)(proto_id target :=
                    (capture_own st (proto_id target))(propertyKey := Some existingCaptures))\<rparr>
         | None \<Rightarrow>
             st\<lparr>capture_arrays := (capture_arrays st)(allocated st :=
                    array_set [] parameterIndex grouping),
                capture_own := (capture_own st)(proto_id target :=
                    (capture_own st (proto_id target))(propertyKey := Some (allocated st))),
                allocated := Suc (allocated st)\<rparr>)"

definition declare_path ::
  "Methods \<Rightarrow> path_pattern \<Rightarrow> prototype \<Rightarrow> string \<Rightarrow> MetadataStore \<Rightarrow> MetadataStore" where
  \<comment> \<open>The common body of the decorators \<^verbatim>\<open>GET\<close>, \<^verbatim>\<open>POST\<close> and \<^verbatim>\<open>DELETE\<close>:
      \<^verbatim>\<open>existingPaths\<close> is the array found along the prototype chain, or a new one; the
      descriptor is pushed onto that array, and the target's own metadata is set to it.\<close>
  "declare_path m p target propertyKey st =
     (let d = \<lparr>d_key = propertyKey, d_path = p, d_method = m\<rparr>
      in case getMetadata (path_own st) (prototype_chain target) of
           Some existingPaths \<Rightarrow>
             st\<lparr>path_arrays := (path_arrays st)(existingPaths :=
                    path_arrays st existingPaths @ [d]),
                path_own := (path_own st)(proto_id target := Some existingPaths)\<rparr>
         | None \<Rightarrow>
             st\<lparr>path_arrays := (path_arrays st)(allocated st := [d]),
                path_own := (path_own st)(proto_id target := Some (allocated st)),
                allocated := Suc (allocated st)\<rparr>)"

definition GET ::
  "path_pattern \<Rightarrow> prototype \<Rightarrow> string \<Rightarrow> MetadataStore \<Rightarrow> MetadataStore" where
  "GET p = declare_path M_get p"

definition POST ::
  "path_pattern \<Rightarrow> prototype \<Rightarrow> string \<Rightarrow> MetadataStore \<Rightarrow> MetadataStore" where
  "POST p = declare_path M_post p"

definition DELETE ::
  "path_pattern \<Rightarrow> prototype \<Rightarrow> string \<Rightarrow> MetadataStore \<Rightarrow> MetadataStore" where
  "DELETE p = declare_path M_delete p"

text \<open>
  A handler class as the registry sees it: the metadata that \<^verbatim>\<open>Reflect.getMetadata\<close>
  answers for the class and its instances when \<^verbatim>\<open>init\<close> and \<^verbatim>\<open>call\<close> ask.
  \<open>ctor_meta\<close> is the metadata on the constructor itself (read by \<^verbatim>\<open>init\<close> for every
  injection key; no decorator of this file writes it), \<open>path_meta\<close> the route list under
  \<^verbatim>\<open>pathMetadataKey\<close> (\<open>None\<close> when no route list is found), and the remaining four are
  the per-method metadata. \<open>methods\<close> gives the behaviour of the class's methods on an
  instance built from the given constructor arguments.
\<close>

record ('k, 'v, 'r) ResponderConstructor =
  ctor_meta :: "'k \<Rightarrow> nat option"
  path_meta :: "ResponderDefinition list option"
  protect_meta :: "string \<Rightarrow> bool"
  address_meta :: "string \<Rightarrow> nat option"
  body_meta :: "string \<Rightarrow> nat option"
  capture_meta :: "string \<Rightarrow> CaptureGroupings option"
  methods :: "'v option list \<Rightarrow> string \<Rightarrow> string option list \<Rightarrow> fault + 'r"

definition class_metadata ::
  "MetadataStore \<Rightarrow> prototype \<Rightarrow> ('k \<Rightarrow> nat option)
     \<Rightarrow> ('v option list \<Rightarrow> string \<Rightarrow> string option list \<Rightarrow> fault + 'r)
     \<Rightarrow> ('k, 'v, 'r) ResponderConstructor" where
  \<comment> \<open>The class with prototype \<open>target\<close>, constructor metadata \<open>cm\<close> and method bodies
      \<open>ms\<close>, with its metadata read from the store along the prototype chain.\<close>
  "class_metadata st target cm meths =
     \<lparr>ctor_meta = cm,
      path_meta = map_option (path_arrays st)
                    (getMetadata (path_own st) (prototype_chain target)),
      protect_meta = (\<lambda>k. getMetadata (\<lambda>c. protect_own st c k) (prototype_chain target)
                            = Some True),
      address_meta = (\<lambda>k. getMetadata (\<lambda>c. address_own st c k) (prototype_chain target)),
      body_meta = (\<lambda>k. getMetadata (\<lambda>c. body_own st c k) (prototype_chain target)),
      capture_meta = (\<lambda>k. map_option (capture_arrays st)
                            (getMetadata (\<lambda>c. capture_own st c k) (prototype_chain target))),
      methods = meths\<rparr>"

section \<open>The registry\<close>

text \<open>
  An instance created by \<^verbatim>\<open>new r(...args)\<close>. \<open>oid\<close> is its object identity: the number
  of objects allocated before it.
\<close>

record ('k, 'v, 'r) responder_instance =
  oid :: nat
  inst_class :: "('k, 'v, 'r) ResponderConstructor"
  inst_args :: "'v option list"

record ('k, 'v, 'r) Responder =
  r_responder :: "('k, 'v, 'r) responder_instance"
  r_path :: path_pattern
  r_method :: Methods
  r_key :: string
  r_responses :: "'r Responses"

record ('k, 'v, 'r) Responders =
  responderEntries :: "('k, 'v, 'r) Responder list"
  responderConstructors :: "('k, 'v, 'r) ResponderConstructor list"
  responses :: "'r Responses"

record ('k, 'v) injection =
  inj_key :: 'k
  inj_value :: 'v

definition Responders_new :: "'r Responses \<Rightarrow> ('k, 'v, 'r) Responders" where
  "Responders_new rs = \<lparr>responderEntries = [], responderConstructors = [], responses = rs\<rparr>"

definition Responder_match :: "('k, 'v, 'r) Responder \<Rightarrow> string \<Rightarrow> string \<Rightarrow> bool" where
  "Responder_match e pth m =
     (m = method_name (r_method e) \<and>
      (case r_path e of Pattern re \<Rightarrow> RegExp_test re pth | Literal s \<Rightarrow> s = pth))"

definition Responders_get ::
  "string \<Rightarrow> string \<Rightarrow> ('k, 'v, 'r) Responders \<Rightarrow> ('k, 'v, 'r) Responder option" where
  "Responders_get pth m reg = find (\<lambda>r. Responder_match r pth m) (responderEntries reg)"

definition Responders_register ::
  "('k, 'v, 'r) ResponderConstructor \<Rightarrow> ('k, 'v, 'r) Responders \<Rightarrow> ('k, 'v, 'r) Responders" where
  "Responders_register r reg =
     reg\<lparr>responderConstructors := responderConstructors reg @ [r]\<rparr>"

definition ctor_args ::
  "('k, 'v, 'r) ResponderConstructor \<Rightarrow> ('k, 'v) injection list \<Rightarrow> 'v option list" where
  \<comment> \<open>The inner \<^verbatim>\<open>injections.forEach\<close> of \<^verbatim>\<open>init\<close>.\<close>
  "ctor_args r injections =
     fold (\<lambda>v args. case ctor_meta r (inj_key v) of
                       None \<Rightarrow> args
                     | Some i \<Rightarrow> array_set args i (Some (inj_value v)))
          injections []"

definition instantiate ::
  "('k, 'v, 'r) ResponderConstructor \<Rightarrow> 'v option list \<Rightarrow> nat
     \<Rightarrow> ('k, 'v, 'r) responder_instance" where
  \<comment> \<open>\<^verbatim>\<open>new r(...args)\<close>, as the \<open>h\<close>-th object allocated.\<close>
  "instantiate r args h = \<lparr>oid = h, inst_class = r, inst_args = args\<rparr>"

definition new_entries ::
  "('k, 'v, 'r) responder_instance \<Rightarrow> 'r Responses \<Rightarrow> ResponderDefinition list
     \<Rightarrow> ('k, 'v, 'r) Responder list" where
  \<comment> \<open>\<^verbatim>\<open>paths.map((p) => new Responder(responder, p.path, p.method, p.key, this.responses))\<close>\<close>
  "new_entries responder rs paths =
     map (\<lambda>p. \<lparr>r_responder = responder, r_path = d_path p, r_method = d_method p,
               r_key = d_key p, r_responses = rs\<rparr>) paths"

text \<open>
  The outer \<^verbatim>\<open>forEach\<close> of \<^verbatim>\<open>init\<close>, over the pending constructors. \<open>h\<close> counts the
  objects allocated so far. When \<^verbatim>\<open>paths\<close> is \<^verbatim>\<open>undefined\<close>, \<^verbatim>\<open>paths.map\<close> throws a
  TypeError, which leaves the loop; the entries pushed before stay in the registry.
\<close>

fun init_loop ::
  "('k, 'v) injection list \<Rightarrow> 'r Responses \<Rightarrow> ('k, 'v, 'r) ResponderConstructor list
     \<Rightarrow> nat \<Rightarrow> ('k, 'v, 'r) Responder list
     \<Rightarrow> fault option \<times> nat \<times> ('k, 'v, 'r) Responder list" where
  "init_loop injections rs [] h es = (None, h, es)"
| "init_loop injections rs (r # cs) h es =
     (let responder = instantiate r (ctor_args r injections) h
      in case path_meta r of
           None \<Rightarrow> (Some TypeError, Suc h, es)
         | Some paths \<Rightarrow> init_loop injections rs cs (Suc h) (es @ new_entries responder rs paths))"

definition Responders_init ::
  "('k, 'v) injection list \<Rightarrow> nat \<Rightarrow> ('k, 'v, 'r) Responders
     \<Rightarrow> fault option \<times> nat \<times> ('k, 'v, 'r) Responders" where
  "Responders_init injections h reg =
     (case init_loop injections (responses reg) (responderConstructors reg) h
             (responderEntries reg) of
        (f, h', es) \<Rightarrow> (f, h', reg\<lparr>responderEntries := es\<rparr>))"

section \<open>Invocation\<close>

type_synonym call_log = "(nat \<times> string \<times> string option list) list"

datatype 'r flow = Returned 'r | Thrown fault | Continue "string option list"

definition gate_rejects :: "('k, 'v, 'r) Responder \<Rightarrow> string option \<Rightarrow> bool" where
  \<comment> \<open>The condition of the first \<^verbatim>\<open>if\<close> of \<^verbatim>\<open>call\<close>.\<close>
  "gate_rejects e addr =
     (protect_meta (inst_class (r_responder e)) (r_key e) \<and> \<not> truthy addr)"

definition address_body_args ::
  "('k, 'v, 'r) Responder \<Rightarrow> string option \<Rightarrow> string option \<Rightarrow> string option list" where
  \<comment> \<open>\<^verbatim>\<open>args\<close> after the address and the body have been placed.\<close>
  "address_body_args e addr bdy =
     (let addressArgIndex = address_meta (inst_class (r_responder e)) (r_key e);
          args = [];
          args = (case addressArgIndex of None \<Rightarrow> args | Some i \<Rightarrow> array_set args i addr);
          bodyArgIndex = body_meta (inst_class (r_responder e)) (r_key e);
          args = (case bodyArgIndex of None \<Rightarrow> args | Some i \<Rightarrow> array_set args i bdy)
      in args)"

text \<open>
  The \<^verbatim>\<open>for (const index in captureGroupings)\<close> loop: \<open>i\<close> is the index of the head of
  the remaining list. Holes and \<^verbatim>\<open>undefined\<close> entries are skipped. \<open>matches\<close> is
  dereferenced (\<^verbatim>\<open>matches![grouping.index]\<close>) at every defined grouping, in the condition
  when \<^verbatim>\<open>required\<close> holds and in the \<^verbatim>\<open>else\<close> branch otherwise, which throws a TypeError
  when \<open>matches\<close> is \<^verbatim>\<open>null\<close>.
\<close>

fun capture_loop ::
  "'r Responses \<Rightarrow> string option list option \<Rightarrow> nat \<Rightarrow> CaptureGroupings
     \<Rightarrow> string option list \<Rightarrow> 'r flow" where
  "capture_loop rs matches i [] args = Continue args"
| "capture_loop rs matches i (None # gs) args = capture_loop rs matches (Suc i) gs args"
| "capture_loop rs matches i (Some grouping # gs) args =
     (case matches of
        None \<Rightarrow> Thrown TypeError
      | Some m \<Rightarrow>
          if g_required grouping \<and> \<not> truthy (array_get m (g_index grouping))
          then Returned (r400 rs)
          else capture_loop rs matches (Suc i) gs
                 (array_set args i (array_get m (g_index grouping))))"

definition capture_step ::
  "('k, 'v, 'r) Responder \<Rightarrow> string \<Rightarrow> string option list \<Rightarrow> 'r flow" where
  \<comment> \<open>The \<^verbatim>\<open>if (this.path instanceof RegExp)\<close> block.\<close>
  "capture_step e pth args =
     (case r_path e of
        Literal s \<Rightarrow> Continue args
      | Pattern re \<Rightarrow>
          (case capture_meta (inst_class (r_responder e)) (r_key e) of
             None \<Rightarrow> Continue args
           | Some captureGroupings \<Rightarrow>
               capture_loop (r_responses e) (RegExp_exec re pth) 0 captureGroupings args))"

definition invoke_handler ::
  "('k, 'v, 'r) Responder \<Rightarrow> string option list \<Rightarrow> call_log
     \<Rightarrow> (fault + 'r) \<times> call_log" where
  \<comment> \<open>\<^verbatim>\<open>this.responder[this.key](...args)\<close>; the call is recorded in the log.\<close>
  "invoke_handler e args log =
     (methods (inst_class (r_responder e)) (inst_args (r_responder e)) (r_key e) args,
      log @ [(oid (r_responder e), r_key e, args)])"

definition call_after_gate ::
  "('k, 'v, 'r) Responder \<Rightarrow> string \<Rightarrow> string option \<Rightarrow> string option \<Rightarrow> call_log
     \<Rightarrow> (fault + 'r) \<times> call_log" where
  "call_after_gate e pth addr bdy log =
     (case capture_step e pth (address_body_args e addr bdy) of
        Returned r \<Rightarrow> (Inr r, log)
      | Thrown f \<Rightarrow> (Inl f, log)
      | Continue args \<Rightarrow> invoke_handler e args log)"

definition Responder_call ::
  "('k, 'v, 'r) Responder \<Rightarrow> string \<Rightarrow> string option \<Rightarrow> string option \<Rightarrow> call_log
     \<Rightarrow> (fault + 'r) \<times> call_log" where
  "Responder_call e pth addr bdy log =
     (if gate_rejects e addr then (Inr (r401 (r_responses e)), log)
      else call_after_gate e pth addr bdy log)"

section \<open>Notions used to state the properties\<close>

definition required_ok :: "string option list \<Rightarrow> CaptureGrouping option \<Rightarrow> bool" where
  \<comment> \<open>A slot of the capture metadata passes the check of the loop against the match
      result \<open>m\<close>: it is empty, or optional, or its group is present and non-empty.\<close>
  "required_ok m go =
     (case go of
        None \<Rightarrow> True
      | Some g \<Rightarrow> \<not> (g_required g \<and> \<not> truthy (array_get m (g_index g))))"

definition bound_at :: "CaptureGroupings \<Rightarrow> nat \<Rightarrow> nat \<Rightarrow> CaptureGrouping option" where
  \<comment> \<open>The grouping that the loop, started at index \<open>i\<close> on the list \<open>gs\<close>, finds for
      parameter index \<open>j\<close>.\<close>
  "bound_at gs i j = (if i \<le> j then array_get gs (j - i) else None)"

definition capture_binding :: "('k, 'v, 'r) Responder \<Rightarrow> nat \<Rightarrow> CaptureGrouping option" where
  \<comment> \<open>The capture binding that the capture step of an entry uses for parameter index
      \<open>j\<close>: none for a literal path or without capture metadata.\<close>
  "capture_binding e j =
     (case r_path e of
        Literal s \<Rightarrow> None
      | Pattern re \<Rightarrow>
          (case capture_meta (inst_class (r_responder e)) (r_key e) of
             None \<Rightarrow> None
           | Some gs \<Rightarrow> array_get gs j))"

definition unprotected :: "('k, 'v, 'r) Responder \<Rightarrow> ('k, 'v, 'r) Responder" where
  \<comment> \<open>The same entry on a class whose methods carry no protection flag.\<close>
  "unprotected e =
     e\<lparr>r_responder := (r_responder e)\<lparr>inst_class :=
          (inst_class (r_responder e))\<lparr>protect_meta := (\<lambda>k. False)\<rparr>\<rparr>\<rparr>"








section \<open>Example handler classes\<close>

text \<open>
  Handler classes in the style of the specification's scenarios, with responses drawn
  from the natural numbers: 400 and 401 are the configured rejections and every handler
  method answers 200. Each class extends nothing and is decorated in a store of its own,
  except \<open>parent_class\<close>, which has a subclass that declares a route of its own.
\<close>

definition empty_store :: MetadataStore where
  "empty_store =
     \<lparr>path_own = (\<lambda>c. None), path_arrays = (\<lambda>a. []), protect_own = (\<lambda>c k. None),
      address_own = (\<lambda>c k. None), body_own = (\<lambda>c k. None), capture_own = (\<lambda>c k. None),
      capture_arrays = (\<lambda>a. []), allocated = 0\<rparr>"

definition solo :: prototype where
  \<comment> \<open>The prototype of a class that extends nothing.\<close>
  "solo = \<lparr>proto_id = 0, proto_parents = []\<rparr>"

definition class_in :: "MetadataStore \<Rightarrow> prototype \<Rightarrow> (nat, nat, nat) ResponderConstructor" where
  \<comment> \<open>A class without constructor metadata whose methods answer 200.\<close>
  "class_in st target = class_metadata st target (\<lambda>k. None) (\<lambda>cargs k args. Inr 200)"

definition plain_class :: "(nat, nat, nat) ResponderConstructor" where
  \<comment> \<open>A class to which no decorator has been applied.\<close>
  "plain_class = class_in empty_store solo"

definition items_re :: regex where
  \<comment> \<open>\<^verbatim>\<open>/\/items\/(\d+)/\<close>\<close>
  "items_re = Seq (lit ''/items/'') (Group (Plus Digit))"

definition items_opt_re :: regex where
  \<comment> \<open>\<^verbatim>\<open>/\/items\/(\d*)(x)?/\<close>\<close>
  "items_opt_re = Seq (Seq (lit ''/items/'') (Group (Star Digit))) (Opt (Group (Chr CHR ''x'')))"

definition items_class :: "(nat, nat, nat) ResponderConstructor" where
  \<comment> \<open>\<^verbatim>\<open>@GET("/items") list()\<close> and \<^verbatim>\<open>@GET(/\/items\/(\d+)/) item(@capture(1, true) id)\<close>\<close>
  "items_class =
     class_in
       (capture 1 True solo ''item'' 0
          (GET (Pattern items_re) solo ''item''
             (GET (Literal ''/items'') solo ''list'' empty_store)))
       solo"

definition login_class :: "(nat, nat, nat) ResponderConstructor" where
  \<comment> \<open>\<^verbatim>\<open>@protect @POST("/login") login(@body b, @address a)\<close>\<close>
  "login_class =
     class_in
       (protect solo ''login''
          (POST (Literal ''/login'') solo ''login''
             (address solo ''login'' 1 (body solo ''login'' 0 empty_store))))
       solo"

definition the_responses :: "nat Responses" where
  "the_responses = \<lparr>r400 = 400, r401 = 401\<rparr>"

definition example_registry :: "(nat, nat, nat) Responders" where
  "example_registry =
     snd (snd (Responders_init [] 0
       (Responders_register login_class
          (Responders_register items_class (Responders_new the_responses)))))"

definition entry_of ::
  "(nat, nat, nat) ResponderConstructor \<Rightarrow> path_pattern \<Rightarrow> Methods \<Rightarrow> string
     \<Rightarrow> (nat, nat, nat) Responder" where
  \<comment> \<open>The entry of a route of the first instance of a class.\<close>
  "entry_of c p m k =
     \<lparr>r_responder = \<lparr>oid = 0, inst_class = c, inst_args = []\<rparr>,
      r_path = p, r_method = m, r_key = k, r_responses = the_responses\<rparr>"

definition guarded_class :: "(nat, nat, nat) ResponderConstructor" where
  \<comment> \<open>\<^verbatim>\<open>@protect @GET(/\/items\/(\d*)(x)?/) item(@capture(1, true) id)\<close>\<close>
  "guarded_class =
     class_in
       (protect solo ''item''
          (capture 1 True solo ''item'' 0
             (GET (Pattern items_opt_re) solo ''item'' empty_store)))
       solo"

definition optional_store :: MetadataStore where
  \<comment> \<open>\<^verbatim>\<open>@GET(/\/items\/(\d*)(x)?/) item(@capture(2) flag, @capture(1, true) id)\<close>\<close>
  "optional_store =
     capture 1 True solo ''item'' 1
       (capture 2 False solo ''item'' 0
          (GET (Pattern items_opt_re) solo ''item'' empty_store))"

definition optional_class :: "(nat, nat, nat) ResponderConstructor" where
  "optional_class = class_in optional_store solo"

definition protected_optional_class :: "(nat, nat, nat) ResponderConstructor" where
  \<comment> \<open>The same class with \<^verbatim>\<open>@protect\<close> on the method.\<close>
  "protected_optional_class = class_in (protect solo ''item'' optional_store) solo"

definition clash_class :: "(nat, nat, nat) ResponderConstructor" where
  \<comment> \<open>\<^verbatim>\<open>@GET(/\/items\/(\d+)/) item(@capture(1) @address a, @body b)\<close>\<close>
  "clash_class =
     class_in
       (capture 1 False solo ''item'' 0
          (address solo ''item'' 0
             (body solo ''item'' 1 (GET (Pattern items_re) solo ''item'' empty_store))))
       solo"

definition bad_group_class :: "bool \<Rightarrow> (nat, nat, nat) ResponderConstructor" where
  \<comment> \<open>\<^verbatim>\<open>@GET(/\/items\/(\d+)/) item(@capture(5, required) id)\<close>: the pattern has one group.\<close>
  "bad_group_class required =
     class_in
       (capture 5 required solo ''item'' 0
          (GET (Pattern items_re) solo ''item'' empty_store))
       solo"





section \<open>Auxiliary facts\<close>

subsection \<open>Evaluating the examples\<close>

lemmas fixture_defs = plain_class_def items_class_def login_class_def the_responses_def
  example_registry_def entry_of_def Responders_init_def Responders_register_def Responders_new_def
  capture_def GET_def POST_def DELETE_def declare_path_def address_def body_def protect_def
  new_entries_def ctor_args_def array_set_def array_get_def Let_def instantiate_def
  class_in_def class_metadata_def empty_store_def solo_def prototype_chain_def

lemma ex_entries: "responderEntries example_registry =
  [entry_of items_class (Literal ''/items'') M_get ''list'',
   entry_of items_class (Pattern items_re) M_get ''item'',
   (entry_of login_class (Literal ''/login'') M_post ''login'')
     \<lparr>r_responder := \<lparr>oid = 1, inst_class = login_class, inst_args = []\<rparr>\<rparr>]"
  by (simp add: fixture_defs)

subsection \<open>Sparse arrays\<close>

lemma array_get_set: "array_get (array_set xs i v) j = (if j = i then v else array_get xs j)"
  by (auto simp: array_get_def array_set_def nth_append nth_Cons')

lemma array_get_Nil: "array_get [] j = None"
  by (simp add: array_get_def)

subsection \<open>The capture loop\<close>

lemma capture_loop_null:
  "\<exists>g \<in> set gs. g \<noteq> None \<Longrightarrow> capture_loop rs None i gs args = Thrown TypeError"
  by (induction rs "None :: string option list option" i gs args rule: capture_loop.induct) auto

lemma capture_loop_rejects:
  "n < length gs \<Longrightarrow> \<not> required_ok m (gs ! n) \<Longrightarrow> \<forall>j < n. required_ok m (gs ! j)
   \<Longrightarrow> capture_loop rs (Some m) i gs args = Returned (r400 rs)"
proof (induction gs arbitrary: n i args)
  case Nil
  then show ?case by simp
next
  case (Cons g gs)
  show ?case
  proof (cases n)
    case 0
    with Cons.prems show ?thesis
      by (cases g) (auto simp: required_ok_def)
  next
    case (Suc n')
    from Cons.prems Suc have ok: "required_ok m g" by auto
    from Cons.prems Suc have rest: "n' < length gs" "\<not> required_ok m (gs ! n')"
      "\<forall>j < n'. required_ok m (gs ! j)" by auto
    from Cons.IH[OF rest] ok show ?thesis
      by (cases g) (auto simp: required_ok_def)
  qed
qed

lemma bound_at_Nil: "bound_at [] i j = None"
  by (simp add: bound_at_def array_get_def)

lemma bound_at_Cons:
  "bound_at (g # gs) i j = (if j = i then g else bound_at gs (Suc i) j)"
  by (auto simp: bound_at_def array_get_def nth_Cons' Suc_diff_le)

lemma bound_at_Suc_self: "bound_at gs (Suc i) i = None"
  by (simp add: bound_at_def)

lemma capture_loop_Continue:
  "capture_loop rs (Some m) i gs args = Continue args' \<Longrightarrow>
     array_get args' j =
        (case bound_at gs i j of None \<Rightarrow> array_get args j
         | Some g \<Rightarrow> array_get m (g_index g))"
proof (induction gs arbitrary: i args)
  case Nil
  then show ?case by (simp add: bound_at_Nil)
next
  case (Cons g gs)
  then show ?case
    by (cases g)
       (auto simp: bound_at_Cons bound_at_Suc_self array_get_set
             split: if_splits option.splits)
qed

lemma capture_loop_Continue_null:
  "capture_loop rs None i gs args = Continue args' \<Longrightarrow>
     args' = args \<and> (\<forall>g \<in> set gs. g = None)"
proof (induction gs arbitrary: i)
  case Nil
  then show ?case by simp
next
  case (Cons g gs)
  then show ?case by (cases g) auto
qed

lemma capture_loop_accepts:
  "\<forall>j < length gs. required_ok m (gs ! j) \<Longrightarrow>
   \<exists>args'. capture_loop rs (Some m) i gs args = Continue args'"
proof (induction gs arbitrary: i args)
  case Nil
  then show ?case by simp
next
  case (Cons g gs)
  from Cons.prems have ok: "required_ok m g" and rest: "\<forall>j < length gs. required_ok m (gs ! j)"
    by auto
  from Cons.IH[OF rest] ok show ?case
    by (cases g) (auto simp: required_ok_def)
qed


subsection \<open>The matcher\<close>

lemma length_clear: "length (clear k n cs) = length cs"
  by (simp add: clear_def)

lemma ms_Star_cases:
  assumes "(q, cs') \<in> set (ms (Star r) inp k (p, cs))"
  shows "(q, cs') = (p, cs) \<or>
     (\<exists>q1 cs1. (q1, cs1) \<in> set (ms r inp k (p, clear k (ngroups r) cs)) \<and>
        p < q1 \<and> q1 \<le> length inp \<and> (q, cs') \<in> set (ms (Star r) inp k (q1, cs1)))"
  using assms by (subst (asm) ms.simps(9)) (auto simp del: ms.simps)

lemma ms_Plus_cases:
  assumes "(q, cs') \<in> set (ms (Plus r) inp k (p, cs))"
  shows "\<exists>q1 cs1. (q1, cs1) \<in> set (ms r inp k (p, clear k (ngroups r) cs)) \<and>
        (q, cs') \<in> set (ms (Star r) inp k (q1, cs1))"
  using assms by (subst (asm) ms.simps(10)) (auto simp del: ms.simps)

lemma ms_length:
  "(q, cs') \<in> set (ms r inp k (p, cs)) \<Longrightarrow> length cs' = length cs"
proof (induction r inp k "(p, cs)" arbitrary: p cs q cs' rule: ms.induct)
  case (6 r s inp k)
  then show ?case by (fastforce simp del: ms.simps simp add: ms.simps(6))
next
  case (7 r s inp k)
  then show ?case by (fastforce simp del: ms.simps simp add: ms.simps(7))
next
  case (8 r inp k p cs)
  then show ?case by (fastforce simp del: ms.simps simp add: ms.simps(8))
next
  case (9 r inp k p cs)
  from ms_Star_cases[OF "9.prems"] show ?case
  proof
    assume "(q, cs') = (p, cs)"
    then show ?thesis by simp
  next
    assume "\<exists>q1 cs1. (q1, cs1) \<in> set (ms r inp k (p, clear k (ngroups r) cs)) \<and>
        p < q1 \<and> q1 \<le> length inp \<and> (q, cs') \<in> set (ms (Star r) inp k (q1, cs1))"
    then obtain q1 cs1 where a: "(q1, cs1) \<in> set (ms r inp k (p, clear k (ngroups r) cs))"
      and b: "p < q1" "q1 \<le> length inp" and c: "(q, cs') \<in> set (ms (Star r) inp k (q1, cs1))"
      by blast
    from "9.hyps"(1)[OF a] have l1: "length cs1 = length cs" by (simp add: length_clear)
    have "(q1, cs1) \<in> set (filter (\<lambda>(q, _). p < q \<and> q \<le> length inp)
             (ms r inp k (p, clear k (ngroups r) cs)))"
      using a b by (simp del: ms.simps)
    from "9.hyps"(2)[OF this c] have "length cs' = length cs1" by (simp del: ms.simps)
    with l1 show ?thesis by simp
  qed
next
  case (10 r inp k p cs)
  from ms_Plus_cases[OF "10.prems"] obtain q1 cs1 where
    a: "(q1, cs1) \<in> set (ms r inp k (p, clear k (ngroups r) cs))"
    and c: "(q, cs') \<in> set (ms (Star r) inp k (q1, cs1))"
    by blast
  from "10.hyps"(1)[OF a] have l1: "length cs1 = length cs" by (simp add: length_clear)
  from "10.hyps"(2)[OF a c] have "length cs' = length cs1" by (simp del: ms.simps)
  with l1 show ?case by simp
next
  case (11 r inp k p cs)
  then show ?case by (fastforce simp del: ms.simps simp add: ms.simps(11) length_clear)
qed (auto split: if_splits)

lemma RegExp_exec_length:
  assumes "RegExp_exec r inp = Some m"
  shows "length m = Suc (ngroups r)"
proof -
  let ?all = "concat (map (\<lambda>i. map (Pair i) (ms r inp 0 (i, replicate (ngroups r) None)))
                       [0..<Suc (length inp)])"
  from assms obtain i q cs rest where all: "?all = (i, (q, cs)) # rest"
    and m: "m = Some (take (q - i) (drop i inp)) # cs"
    unfolding RegExp_exec_def by (auto simp del: ms.simps split: list.splits)
  have "(i, (q, cs)) \<in> set ?all" unfolding all by simp
  then have "(q, cs) \<in> set (ms r inp 0 (i, replicate (ngroups r) None))"
    by (auto simp del: ms.simps)
  from ms_length[OF this] m show ?thesis by simp
qed

lemma exec_case:
  "(case xs of [] \<Rightarrow> None | (i, (q, cs)) # _ \<Rightarrow> Some (f i q cs)) \<noteq> None \<longleftrightarrow> xs \<noteq> []"
  by (auto split: list.splits)

lemma RegExp_test_iff:
  "RegExp_test r inp \<longleftrightarrow>
     (\<exists>i \<le> length inp. ms r inp 0 (i, replicate (ngroups r) None) \<noteq> [])"
proof -
  let ?all = "concat (map (\<lambda>i. map (Pair i) (ms r inp 0 (i, replicate (ngroups r) None)))
                       [0..<Suc (length inp)])"
  have "RegExp_test r inp \<longleftrightarrow> ?all \<noteq> []"
    unfolding RegExp_test_def RegExp_exec_def by (simp only: exec_case)
  also have "\<dots> \<longleftrightarrow> (\<exists>i \<le> length inp. ms r inp 0 (i, replicate (ngroups r) None) \<noteq> [])"
    by (auto simp: less_Suc_eq_le simp del: upt_Suc ms.simps)
  finally show ?thesis .
qed

lemma anchored_start:
  "ms (Seq Bol (Seq r Eol)) inp 0 (i, cs) \<noteq> [] \<longleftrightarrow>
     i = 0 \<and> list_ex (\<lambda>(q, cs'). q = length inp) (ms r inp 0 (0, cs))"
  by (fastforce simp: list_ex_iff split: if_splits)

lemma RegExp_test_anchored:
  "RegExp_test (Seq Bol (Seq r Eol)) inp \<longleftrightarrow> full_pattern_test r inp"
  unfolding RegExp_test_iff full_pattern_test_def
  by (simp only: anchored_start ngroups.simps) auto

subsection \<open>The initialisation loop\<close>



lemma init_loop_fault:
  "\<exists>r \<in> set cs. path_meta r = None \<Longrightarrow>
   fst (init_loop injections rs cs h es) = Some TypeError"
proof (induction cs arbitrary: h es)
  case Nil
  then show ?case by simp
next
  case (Cons r cs)
  then show ?case by (cases "path_meta r") (auto simp: Let_def)
qed


subsection \<open>Steps of an invocation\<close>

lemma required_ok_iff:
  "required_ok m go \<longleftrightarrow> (\<forall>g. go = Some g \<longrightarrow> g_required g \<longrightarrow> truthy (array_get m (g_index g)))"
  by (cases go) (auto simp: required_ok_def)

lemma bound_at_0: "bound_at gs 0 j = array_get gs j"
  by (simp add: bound_at_def)

lemma array_get_address_body_args:
  "array_get (address_body_args e addr bdy) j =
     (if body_meta (inst_class (r_responder e)) (r_key e) = Some j then bdy
      else if address_meta (inst_class (r_responder e)) (r_key e) = Some j then addr
      else None)"
  by (auto simp: address_body_args_def Let_def array_get_set array_get_Nil split: option.splits)


lemma capture_step_bound:
  assumes "capture_step e pth args = Continue args'" and "capture_binding e j = Some g"
  shows "\<exists>re m. r_path e = Pattern re \<and> RegExp_exec re pth = Some m \<and>
           array_get args' j = array_get m (g_index g)"
proof (cases "r_path e")
  case (Literal s)
  with assms show ?thesis by (simp add: capture_binding_def)
next
  case (Pattern re)
  show ?thesis
  proof (cases "capture_meta (inst_class (r_responder e)) (r_key e)")
    case None
    with assms Pattern show ?thesis by (simp add: capture_binding_def)
  next
    case (Some gs)
    with assms Pattern have loop: "capture_loop (r_responses e) (RegExp_exec re pth) 0 gs args = Continue args'"
      and bnd: "array_get gs j = Some g"
      by (simp_all add: capture_step_def capture_binding_def)
    from bnd have "j < length gs" "gs ! j = Some g"
      by (auto simp: array_get_def split: if_splits)
    then have "Some g \<in> set gs" using nth_mem by fastforce
    show ?thesis
    proof (cases "RegExp_exec re pth")
      case None
      with loop capture_loop_Continue_null[of "r_responses e" 0 gs args args'] \<open>Some g \<in> set gs\<close>
      show ?thesis by auto
    next
      case (Some m)
      with loop have "capture_loop (r_responses e) (Some m) 0 gs args = Continue args'" by simp
      from capture_loop_Continue[OF this, of j] bnd Pattern Some show ?thesis
        by (simp add: bound_at_0)
    qed
  qed
qed

lemma call_logged:
  assumes "snd (Responder_call e pth addr bdy log) = log @ [c]"
  shows "\<not> gate_rejects e addr \<and>
         (\<exists>args. capture_step e pth (address_body_args e addr bdy) = Continue args \<and>
                  c = (oid (r_responder e), r_key e, args))"
  using assms
  by (auto simp: Responder_call_def call_after_gate_def invoke_handler_def
           split: if_splits flow.splits)

lemma call_rejects:
  assumes "r_path e = Pattern re"
    and "capture_meta (inst_class (r_responder e)) (r_key e) = Some gs"
    and "RegExp_exec re pth = Some m"
    and "\<not> gate_rejects e addr"
    and "n < length gs" and "\<not> required_ok m (gs ! n)" and "\<forall>j < n. required_ok m (gs ! j)"
  shows "Responder_call e pth addr bdy log = (Inr (r400 (r_responses e)), log)"
  using assms capture_loop_rejects[of n gs m "r_responses e" 0 "address_body_args e addr bdy"]
  by (simp add: Responder_call_def call_after_gate_def capture_step_def)

lemma call_invokes:
  assumes "r_path e = Pattern re"
    and "capture_meta (inst_class (r_responder e)) (r_key e) = Some gs"
    and "RegExp_exec re pth = Some m"
    and "\<not> gate_rejects e addr"
    and "\<forall>j < length gs. required_ok m (gs ! j)"
  shows "\<exists>args. Responder_call e pth addr bdy log =
            (methods (inst_class (r_responder e)) (inst_args (r_responder e)) (r_key e) args,
             log @ [(oid (r_responder e), r_key e, args)]) \<and>
           (\<forall>j. array_get args j =
              (case array_get gs j of
                 None \<Rightarrow> array_get (address_body_args e addr bdy) j
               | Some g \<Rightarrow> array_get m (g_index g)))"
proof -
  from capture_loop_accepts[OF assms(5), of "r_responses e" 0 "address_body_args e addr bdy"]
  obtain args where loop: "capture_loop (r_responses e) (Some m) 0 gs
      (address_body_args e addr bdy) = Continue args" by blast
  from capture_loop_Continue[OF loop]
  have vals: "\<forall>j. array_get args j =
              (case array_get gs j of
                 None \<Rightarrow> array_get (address_body_args e addr bdy) j
               | Some g \<Rightarrow> array_get m (g_index g))"
    by (simp add: bound_at_0)
  from assms loop have "Responder_call e pth addr bdy log = invoke_handler e args log"
    by (simp add: Responder_call_def call_after_gate_def capture_step_def)
  with vals show ?thesis by (auto simp: invoke_handler_def)
qed

lemma unprotected_fields:
  "r_path (unprotected e) = r_path e"
  "r_key (unprotected e) = r_key e"
  "r_responses (unprotected e) = r_responses e"
  "oid (r_responder (unprotected e)) = oid (r_responder e)"
  "inst_args (r_responder (unprotected e)) = inst_args (r_responder e)"
  "capture_meta (inst_class (r_responder (unprotected e))) = capture_meta (inst_class (r_responder e))"
  "address_meta (inst_class (r_responder (unprotected e))) = address_meta (inst_class (r_responder e))"
  "body_meta (inst_class (r_responder (unprotected e))) = body_meta (inst_class (r_responder e))"
  "methods (inst_class (r_responder (unprotected e))) = methods (inst_class (r_responder e))"
  by (simp_all add: unprotected_def)

lemma call_after_gate_unprotected:
  "call_after_gate (unprotected e) pth addr bdy log = call_after_gate e pth addr bdy log"
  by (simp only: call_after_gate_def capture_step_def address_body_args_def invoke_handler_def
        unprotected_fields)

lemma gate_unprotected: "\<not> gate_rejects (unprotected e) addr"
  by (simp add: gate_rejects_def unprotected_def)

subsection \<open>Matches of the example patterns\<close>

lemmas call_defs = Responder_call_def gate_rejects_def call_after_gate_def capture_step_def
  address_body_args_def invoke_handler_def truthy_def

lemmas class_defs = guarded_class_def optional_class_def optional_store_def
  protected_optional_class_def clash_class_def bad_group_class_def

lemma exec_items_42:
  "RegExp_exec items_re ''/items/42'' = Some [Some ''/items/42'', Some ''42'']"
  by code_simp

lemma exec_items_inner:
  "RegExp_exec items_re ''/x/items/42/y'' = Some [Some ''/items/42'', Some ''42'']"
  by code_simp

lemma full_items_inner: "\<not> full_pattern_test items_re ''/x/items/42/y''"
  by code_simp

lemma exec_items_nope: "RegExp_exec items_re ''/nope'' = None"
  by code_simp

lemma exec_opt_nope: "RegExp_exec items_opt_re ''/nope'' = None"
  by code_simp

lemma exec_opt_42:
  "RegExp_exec items_opt_re ''/items/42'' = Some [Some ''/items/42'', Some ''42'', None]"
  by code_simp

lemma exec_opt_empty:
  "RegExp_exec items_opt_re ''/items/'' = Some [Some ''/items/'', Some '''', None]"
  by code_simp

lemma ngroups_items: "ngroups items_re = 1"
  by code_simp

lemma match_items_42:
  "Responder_match (entry_of items_class (Pattern items_re) M_get ''item'') ''/items/42'' ''get''"
  by (simp add: Responder_match_def RegExp_test_def exec_items_42 entry_of_def)

subsection \<open>Route lists of classes that extend nothing\<close>









section \<open>Finding a route\<close>

text \<open>
  Claim C1. For every state of the registry (in particular every state that \<^verbatim>\<open>init\<close>
  leaves) and every request \<open>(pth, m)\<close>, \<^verbatim>\<open>get\<close> scans the entry list in build order:
  it answers \<^verbatim>\<open>undefined\<close> exactly when no entry matches, and otherwise the matching
  entry of least index. An entry matches when the request method equals its verb and its
  path pattern matches the path, which for a literal pattern is equality of strings.
\<close>

theorem Responders_get_first_match:
  "(Responders_get pth m reg = None \<longleftrightarrow>
      (\<forall>e \<in> set (responderEntries reg). \<not> Responder_match e pth m)) \<and>
   (\<forall>i < length (responderEntries reg).
      Responder_match (responderEntries reg ! i) pth m \<and>
      (\<forall>j < i. \<not> Responder_match (responderEntries reg ! j) pth m) \<longrightarrow>
      Responders_get pth m reg = Some (responderEntries reg ! i)) \<and>
   (\<forall>e \<in> set (responderEntries reg).
      Responder_match e pth m \<longleftrightarrow>
        m = method_name (r_method e) \<and>
        (case r_path e of Literal s \<Rightarrow> s = pth | Pattern re \<Rightarrow> RegExp_test re pth))"
  unfolding Responders_get_def
  by (auto simp: find_None_iff find_Some_iff Responder_match_def split: path_pattern.splits)

theorem Responders_get_first_match_witness:
  "Responders_get ''/items/42'' ''get'' example_registry =
     Some (entry_of items_class (Pattern items_re) M_get ''item'') \<and>
   Responders_get ''/items'' ''post'' example_registry = None"
proof -
  have e1: "responderEntries example_registry ! 1 =
            entry_of items_class (Pattern items_re) M_get ''item''"
    by (simp add: ex_entries)
  have len: "1 < length (responderEntries example_registry)"
    by (simp add: ex_entries)
  have hit: "Responder_match (responderEntries example_registry ! 1) ''/items/42'' ''get''"
    by (simp only: e1 match_items_42)
  have before: "\<forall>j < 1. \<not> Responder_match (responderEntries example_registry ! j) ''/items/42'' ''get''"
    by (simp add: ex_entries Responder_match_def entry_of_def)
  have none: "\<forall>e \<in> set (responderEntries example_registry). \<not> Responder_match e ''/items'' ''post''"
    by (simp add: ex_entries Responder_match_def entry_of_def)
  from Responders_get_first_match[of "''/items/42''" "''get''" example_registry] len hit before
  have "Responders_get ''/items/42'' ''get'' example_registry =
          Some (responderEntries example_registry ! 1)" by blast
  moreover from Responders_get_first_match[of "''/items''" "''post''" example_registry] none
  have "Responders_get ''/items'' ''post'' example_registry = None" by blast
  ultimately show ?thesis by (simp only: e1)
qed

section \<open>The authorization gate\<close>

text \<open>
  Claim C2. For an entry whose handler method is protected, the gate of \<^verbatim>\<open>call\<close> fires
  exactly when the address is absent or empty. When it fires, \<^verbatim>\<open>call\<close> returns the
  configured 401 response as a value and the log of handler calls is unchanged. With a
  non-empty address, \<^verbatim>\<open>call\<close> goes on with the rest of the protocol, and behaves as the
  same entry without protection does.
\<close>

theorem Responder_call_authorization_gate:
  assumes "protect_meta (inst_class (r_responder e)) (r_key e)"
  shows "(gate_rejects e addr \<longleftrightarrow> addr = None \<or> addr = Some []) \<and>
         (addr = None \<or> addr = Some [] \<longrightarrow>
            Responder_call e pth addr bdy log = (Inr (r401 (r_responses e)), log)) \<and>
         (\<not> (addr = None \<or> addr = Some []) \<longrightarrow>
            Responder_call e pth addr bdy log = call_after_gate e pth addr bdy log \<and>
            Responder_call e pth addr bdy log = Responder_call (unprotected e) pth addr bdy log)"
proof -
  have g: "gate_rejects e addr \<longleftrightarrow> addr = None \<or> addr = Some []"
    using assms by (cases addr) (auto simp: gate_rejects_def truthy_def)
  have u: "Responder_call (unprotected e) pth addr bdy log = call_after_gate e pth addr bdy log"
    by (simp add: Responder_call_def gate_unprotected call_after_gate_unprotected)
  from g u show ?thesis by (auto simp: Responder_call_def)
qed

theorem Responder_call_authorization_gate_witness:
  "protect_meta (inst_class (r_responder (entry_of login_class (Literal ''/login'') M_post ''login'')))
     (r_key (entry_of login_class (Literal ''/login'') M_post ''login'')) \<and>
   Responder_call (entry_of login_class (Literal ''/login'') M_post ''login'')
     ''/login'' None (Some ''b'') [] = (Inr 401, []) \<and>
   Responder_call (entry_of login_class (Literal ''/login'') M_post ''login'')
     ''/login'' (Some ''alice'') (Some ''b'') [] =
     (Inr 200, [(0, ''login'', [Some ''b'', Some ''alice''])])"
proof -
  let ?e = "entry_of login_class (Literal ''/login'') M_post ''login''"
  have p: "protect_meta (inst_class (r_responder ?e)) (r_key ?e)"
    by (simp add: fixture_defs)
  have r: "r401 (r_responses ?e) = 401" by (simp add: fixture_defs)
  have a: "call_after_gate ?e ''/login'' (Some ''alice'') (Some ''b'') [] =
             (Inr 200, [(0, ''login'', [Some ''b'', Some ''alice''])])"
    by (simp add: call_defs fixture_defs)
  from Responder_call_authorization_gate[OF p, of None "''/login''" "Some ''b''" "[]"]
       Responder_call_authorization_gate[OF p, of "Some ''alice''" "''/login''" "Some ''b''" "[]"]
       p r a
  show ?thesis by simp
qed

section \<open>Matching a path against a pattern\<close>

text \<open>
  Claim C4 says that an entry with a regex pattern matches only when the entire path
  matches the pattern. This fails: \<^verbatim>\<open>match\<close> calls \<^verbatim>\<open>RegExp.test\<close>, which searches the
  path for a match at any offset. The route \<^verbatim>\<open>/\/items\/(\d+)/\<close> is found for the path
  \<^verbatim>\<open>/x/items/42/y\<close>, which the pattern does not match as a whole.
\<close>

theorem regex_match_counterexample:
  "Responders_get ''/x/items/42/y'' ''get'' example_registry =
     Some (entry_of items_class (Pattern items_re) M_get ''item'') \<and>
   \<not> full_pattern_test items_re ''/x/items/42/y''"
  by (simp add: full_items_inner Responders_get_def ex_entries Responder_match_def
        RegExp_test_def exec_items_inner entry_of_def)

text \<open>
  Claim C4, amended. An entry with a regex pattern matches a request exactly when the
  method equals its verb and the pattern matches the path starting at some offset
  (the search of \<^verbatim>\<open>RegExp.test\<close>). A match of the entire path is therefore sufficient but
  not necessary; it is necessary when the pattern is anchored as \<^verbatim>\<open>^r$\<close>.
\<close>

theorem regex_match_is_search:
  assumes "r_path e = Pattern re"
  shows "(Responder_match e pth m \<longleftrightarrow>
            m = method_name (r_method e) \<and>
            (\<exists>i \<le> length pth. ms re pth 0 (i, replicate (ngroups re) None) \<noteq> [])) \<and>
         (m = method_name (r_method e) \<and> full_pattern_test re pth \<longrightarrow> Responder_match e pth m) \<and>
         (\<forall>r. re = Seq Bol (Seq r Eol) \<longrightarrow>
            (Responder_match e pth m \<longleftrightarrow>
               m = method_name (r_method e) \<and> full_pattern_test r pth))"
proof -
  have a: "Responder_match e pth m \<longleftrightarrow> m = method_name (r_method e) \<and> RegExp_test re pth"
    using assms by (simp add: Responder_match_def)
  have b: "full_pattern_test re pth \<Longrightarrow> RegExp_test re pth"
    unfolding RegExp_test_iff full_pattern_test_def list_ex_iff
    by (rule exI[of _ 0]) (auto simp del: ms.simps)
  from a b show ?thesis
    by (auto simp: RegExp_test_iff[symmetric] RegExp_test_anchored simp del: ms.simps)
qed

theorem regex_match_is_search_witness:
  "r_path (entry_of items_class (Pattern items_re) M_get ''item'') = Pattern items_re \<and>
   Responder_match (entry_of items_class (Pattern items_re) M_get ''item'') ''/x/items/42/y'' ''get'' \<and>
   (\<exists>i \<le> length ''/x/items/42/y''.
      ms items_re ''/x/items/42/y'' 0 (i, replicate (ngroups items_re) None) \<noteq> [])"
proof -
  let ?e = "entry_of items_class (Pattern items_re) M_get ''item''"
  have h: "r_path ?e = Pattern items_re" by (simp add: entry_of_def)
  have m: "Responder_match ?e ''/x/items/42/y'' ''get''"
    by (simp add: Responder_match_def RegExp_test_def exec_items_inner entry_of_def)
  from regex_match_is_search[OF h, of "''/x/items/42/y''" "''get''"] m h
  show ?thesis by blast
qed

section \<open>Building the entry list\<close>




section \<open>Capture bindings\<close>

text \<open>
  Claim C3 says that for every regex entry with capture bindings, \<^verbatim>\<open>call\<close> returns the
  400 response at the first required binding whose group is absent or empty. As stated
  for every such entry this fails, because the authorization gate comes first: a
  protected route called without an address returns the 401 response, although its
  required group is empty in the match.
\<close>

theorem required_capture_gate_counterexample:
  "r_path (entry_of guarded_class (Pattern items_opt_re) M_get ''item'') = Pattern items_opt_re \<and>
   capture_meta guarded_class ''item'' = Some [Some \<lparr>g_index = 1, g_required = True\<rparr>] \<and>
   RegExp_exec items_opt_re ''/items/'' = Some [Some ''/items/'', Some '''', None] \<and>
   r400 (r_responses (entry_of guarded_class (Pattern items_opt_re) M_get ''item'')) = 400 \<and>
   Responder_call (entry_of guarded_class (Pattern items_opt_re) M_get ''item'')
       ''/items/'' None None [] = (Inr 401, [])"
  by (simp add: exec_opt_empty call_defs class_defs fixture_defs)

text \<open>
  Claim C3, amended. For a regex entry with capture bindings, when the authorization
  gate does not fire (the method is unprotected or the address is non-empty) and the
  pattern matches the path: the bindings are checked in the order of their parameter
  index, and at the first one that is required and whose group is absent or empty in the
  match result \<^verbatim>\<open>call\<close> returns the configured 400 response and the handler is not
  called. The bindings after it are not evaluated: the loop gives the same result
  whatever follows that binding.
\<close>

theorem required_capture_rejects:
  assumes "r_path e = Pattern re"
    and "capture_meta (inst_class (r_responder e)) (r_key e) = Some gs"
    and "RegExp_exec re pth = Some m"
    and "\<not> gate_rejects e addr"
    and "n < length gs" and "gs ! n = Some g"
    and "g_required g" and "\<not> truthy (array_get m (g_index g))"
    and "\<forall>j < n. \<forall>g'. gs ! j = Some g' \<longrightarrow> g_required g' \<longrightarrow> truthy (array_get m (g_index g'))"
  shows "Responder_call e pth addr bdy log = (Inr (r400 (r_responses e)), log) \<and>
         (\<forall>gs' args. capture_loop (r_responses e) (Some m) 0 (take (Suc n) gs @ gs') args =
                       Returned (r400 (r_responses e)))"
proof -
  have bad: "\<not> required_ok m (gs ! n)"
    using assms(6-8) by (simp add: required_ok_def)
  have good: "\<forall>j < n. required_ok m (gs ! j)"
    using assms(9) by (simp add: required_ok_iff)
  have call: "Responder_call e pth addr bdy log = (Inr (r400 (r_responses e)), log)"
    by (rule call_rejects[OF assms(1-5) bad good])
  have "capture_loop (r_responses e) (Some m) 0 (take (Suc n) gs @ gs') args =
          Returned (r400 (r_responses e))" for gs' args
  proof (rule capture_loop_rejects[of n])
    show "n < length (take (Suc n) gs @ gs')" using assms(5) by simp
    show "\<not> required_ok m ((take (Suc n) gs @ gs') ! n)"
      using bad assms(5) by (simp add: nth_append)
    show "\<forall>j < n. required_ok m ((take (Suc n) gs @ gs') ! j)"
      using good assms(5) by (simp add: nth_append)
  qed
  with call show ?thesis by blast
qed

theorem required_capture_rejects_witness:
  "\<not> gate_rejects (entry_of guarded_class (Pattern items_opt_re) M_get ''item'') (Some ''alice'') \<and>
   RegExp_exec items_opt_re ''/items/'' = Some [Some ''/items/'', Some '''', None] \<and>
   Responder_call (entry_of guarded_class (Pattern items_opt_re) M_get ''item'')
     ''/items/'' (Some ''alice'') None [] = (Inr 400, [])"
proof -
  let ?e = "entry_of guarded_class (Pattern items_opt_re) M_get ''item''"
  let ?g = "\<lparr>g_index = 1, g_required = True\<rparr>"
  have h1: "r_path ?e = Pattern items_opt_re" by (simp add: entry_of_def)
  have h2: "capture_meta (inst_class (r_responder ?e)) (r_key ?e) = Some [Some ?g]"
    by (simp add: class_defs fixture_defs)
  have h4: "\<not> gate_rejects ?e (Some ''alice'')" by (simp add: gate_rejects_def truthy_def)
  have h5: "0 < length [Some ?g]" "[Some ?g] ! 0 = Some ?g" "g_required ?g" by simp_all
  have h8: "\<not> truthy (array_get [Some ''/items/'', Some '''', None] (g_index ?g))"
    by (simp add: truthy_def array_get_def)
  have h9: "\<forall>j < (0::nat). \<forall>g'. [Some ?g] ! j = Some g' \<longrightarrow> g_required g' \<longrightarrow>
              truthy (array_get [Some ''/items/'', Some '''', None] (g_index g'))" by simp
  have r: "r400 (r_responses ?e) = 400" by (simp add: fixture_defs)
  from required_capture_rejects[OF h1 h2 exec_opt_empty h4 h5 h8 h9, of None "[]"] h4 r
  show ?thesis by (simp add: exec_opt_empty)
qed

text \<open>
  Claim C5 says that an optional capture binding whose group is absent or empty still
  leads to a call of the handler. As stated this fails in two ways: another binding of
  the same method that is required and whose group is empty makes \<^verbatim>\<open>call\<close> return the
  400 response, and on a protected route without an address the gate returns the 401
  response. In both cases the handler is not called.
\<close>

theorem optional_capture_counterexample:
  "capture_meta optional_class ''item'' =
     Some [Some \<lparr>g_index = 2, g_required = False\<rparr>, Some \<lparr>g_index = 1, g_required = True\<rparr>] \<and>
   RegExp_exec items_opt_re ''/items/'' = Some [Some ''/items/'', Some '''', None] \<and>
   Responder_call (entry_of optional_class (Pattern items_opt_re) M_get ''item'')
     ''/items/'' None None [] = (Inr 400, []) \<and>
   RegExp_exec items_opt_re ''/items/42'' = Some [Some ''/items/42'', Some ''42'', None] \<and>
   Responder_call (entry_of protected_optional_class (Pattern items_opt_re) M_get ''item'')
     ''/items/42'' None None [] = (Inr 401, [])"
  by (simp add: exec_opt_empty exec_opt_42 call_defs class_defs fixture_defs)

text \<open>
  Claim C5, amended. For a regex entry whose pattern matches the path, when the
  authorization gate does not fire and no required capture binding of the method has an
  absent or empty group: an optional binding whose group is absent or empty does not stop
  the call; the handler is called and receives the absent or empty value at the
  parameter index of that binding.
\<close>

theorem optional_capture_invokes:
  assumes "r_path e = Pattern re"
    and "capture_meta (inst_class (r_responder e)) (r_key e) = Some gs"
    and "RegExp_exec re pth = Some m"
    and "\<not> gate_rejects e addr"
    and "n < length gs" and "gs ! n = Some g"
    and "\<not> g_required g" and "\<not> truthy (array_get m (g_index g))"
    and "\<forall>j < length gs. \<forall>g'. gs ! j = Some g' \<longrightarrow> g_required g' \<longrightarrow>
           truthy (array_get m (g_index g'))"
  shows "\<exists>args. Responder_call e pth addr bdy log =
            (methods (inst_class (r_responder e)) (inst_args (r_responder e)) (r_key e) args,
             log @ [(oid (r_responder e), r_key e, args)]) \<and>
           array_get args n = array_get m (g_index g) \<and> \<not> truthy (array_get args n)"
proof -
  have good: "\<forall>j < length gs. required_ok m (gs ! j)"
    using assms(9) by (simp add: required_ok_iff)
  from call_invokes[OF assms(1-4) good, of bdy log] obtain args where
    c: "Responder_call e pth addr bdy log =
            (methods (inst_class (r_responder e)) (inst_args (r_responder e)) (r_key e) args,
             log @ [(oid (r_responder e), r_key e, args)])"
    and v: "\<forall>j. array_get args j =
              (case array_get gs j of
                 None \<Rightarrow> array_get (address_body_args e addr bdy) j
               | Some g \<Rightarrow> array_get m (g_index g))"
    by blast
  from v assms(5,6) have "array_get args n = array_get m (g_index g)"
    by (simp add: array_get_def)
  with c assms(8) show ?thesis by auto
qed

theorem optional_capture_invokes_witness:
  "\<not> gate_rejects (entry_of optional_class (Pattern items_opt_re) M_get ''item'') None \<and>
   RegExp_exec items_opt_re ''/items/42'' = Some [Some ''/items/42'', Some ''42'', None] \<and>
   (\<exists>args. Responder_call (entry_of optional_class (Pattern items_opt_re) M_get ''item'')
              ''/items/42'' None None [] = (Inr 200, [(0, ''item'', args)]) \<and>
            array_get args 0 = None)"
proof -
  let ?e = "entry_of optional_class (Pattern items_opt_re) M_get ''item''"
  let ?g = "\<lparr>g_index = 2, g_required = False\<rparr>"
  let ?gs = "[Some ?g, Some \<lparr>g_index = 1, g_required = True\<rparr>]"
  let ?m = "[Some ''/items/42'', Some ''42'', None]"
  have h1: "r_path ?e = Pattern items_opt_re" by (simp add: entry_of_def)
  have h2: "capture_meta (inst_class (r_responder ?e)) (r_key ?e) = Some ?gs"
    by (simp add: class_defs fixture_defs)
  have h4: "\<not> gate_rejects ?e None" by (simp add: gate_rejects_def class_defs fixture_defs)
  have h5: "0 < length ?gs" "?gs ! 0 = Some ?g" "\<not> g_required ?g" by simp_all
  have h8: "\<not> truthy (array_get ?m (g_index ?g))" by (simp add: truthy_def array_get_def)
  have h9: "\<forall>j < length ?gs. \<forall>g'. ?gs ! j = Some g' \<longrightarrow> g_required g' \<longrightarrow>
              truthy (array_get ?m (g_index g'))"
    by (auto simp: less_Suc_eq truthy_def array_get_def)
  have ev: "\<And>args. methods (inst_class (r_responder ?e)) (inst_args (r_responder ?e))
              (r_key ?e) args = Inr 200"
    by (simp add: class_defs fixture_defs)
  have ev': "oid (r_responder ?e) = 0" "r_key ?e = ''item''"
    by (simp_all add: entry_of_def)
  have g: "array_get ?m (g_index ?g) = None" by (simp add: array_get_def)
  from optional_capture_invokes[OF h1 h2 exec_opt_42 h4 h5 h8 h9, of None "[]"]
  obtain args where c: "Responder_call ?e ''/items/42'' None None [] =
            (methods (inst_class (r_responder ?e)) (inst_args (r_responder ?e)) (r_key ?e) args,
             [] @ [(oid (r_responder ?e), r_key ?e, args)])"
    and v: "array_get args 0 = array_get ?m (g_index ?g)"
    by blast
  from c[unfolded ev, unfolded ev' append_Nil] v[unfolded g] h4 exec_opt_42
  show ?thesis by blast
qed

text \<open>
  Claim C10 says that a regex entry with at least one capture binding, called with a
  path that its pattern does not match, raises a fault instead of returning any response.
  As stated this fails on a protected route called without an address: the gate returns
  the 401 response before the pattern is executed.
\<close>

theorem unmatched_path_gate_counterexample:
  "r_path (entry_of guarded_class (Pattern items_opt_re) M_get ''item'') = Pattern items_opt_re \<and>
   capture_meta guarded_class ''item'' = Some [Some \<lparr>g_index = 1, g_required = True\<rparr>] \<and>
   RegExp_exec items_opt_re ''/nope'' = None \<and>
   Responder_call (entry_of guarded_class (Pattern items_opt_re) M_get ''item'')
       ''/nope'' None None [] = (Inr 401, [])"
  by (simp add: exec_opt_nope call_defs class_defs fixture_defs)

text \<open>
  Claim C10, amended. For a regex entry with at least one capture binding, when the
  authorization gate does not fire and the pattern does not match the path, \<^verbatim>\<open>call\<close>
  raises a TypeError (the match result is \<^verbatim>\<open>null\<close> and is dereferenced at the first
  binding); it returns no response and does not call the handler.
\<close>

theorem unmatched_path_faults:
  assumes "r_path e = Pattern re"
    and "capture_meta (inst_class (r_responder e)) (r_key e) = Some gs"
    and "\<exists>n < length gs. gs ! n \<noteq> None"
    and "RegExp_exec re pth = None"
    and "\<not> gate_rejects e addr"
  shows "Responder_call e pth addr bdy log = (Inl TypeError, log)"
proof -
  from assms(3) have "\<exists>g \<in> set gs. g \<noteq> None" using nth_mem by blast
  from capture_loop_null[OF this, of "r_responses e" 0 "address_body_args e addr bdy"]
    assms(1,2,4,5) show ?thesis
    by (simp add: Responder_call_def call_after_gate_def capture_step_def)
qed

theorem unmatched_path_faults_witness:
  "RegExp_exec items_re ''/nope'' = None \<and>
   \<not> gate_rejects (entry_of items_class (Pattern items_re) M_get ''item'') None \<and>
   Responder_call (entry_of items_class (Pattern items_re) M_get ''item'')
     ''/nope'' None None [] = (Inl TypeError, [])"
proof -
  let ?e = "entry_of items_class (Pattern items_re) M_get ''item''"
  have h1: "r_path ?e = Pattern items_re" by (simp add: entry_of_def)
  have h2: "capture_meta (inst_class (r_responder ?e)) (r_key ?e) =
              Some [Some \<lparr>g_index = 1, g_required = True\<rparr>]"
    by (simp add: fixture_defs)
  have h3: "\<exists>n < length [Some \<lparr>g_index = 1, g_required = True\<rparr>].
              [Some \<lparr>g_index = 1, g_required = True\<rparr>] ! n \<noteq> None" by simp
  have h5: "\<not> gate_rejects ?e None" by (simp add: gate_rejects_def fixture_defs)
  from unmatched_path_faults[OF h1 h2 h3 exec_items_nope h5, of None "[]"] h5 exec_items_nope
  show ?thesis by simp
qed

section \<open>Positions of the arguments\<close>




text \<open>
  Claim C7. For a regex entry with a capture binding at a parameter index \<open>i\<close> that is
  also the index of the address or body binding: the address or body is placed at
  \<open>i\<close> first, and whenever the handler is called it receives at \<open>i\<close> the value of the
  capture group (possibly absent or empty) instead. The handler is called whenever the
  gate does not fire, the pattern matches and no required group is absent or empty.
\<close>

theorem capture_overwrites:
  assumes "capture_binding e i = Some g"
    and "address_meta (inst_class (r_responder e)) (r_key e) = Some i \<or>
         body_meta (inst_class (r_responder e)) (r_key e) = Some i"
  shows "array_get (address_body_args e addr bdy) i =
           (if body_meta (inst_class (r_responder e)) (r_key e) = Some i then bdy else addr) \<and>
         (\<forall>c. snd (Responder_call e pth addr bdy log) = log @ [c] \<longrightarrow>
            (\<exists>re m. r_path e = Pattern re \<and> RegExp_exec re pth = Some m \<and>
                    array_get (snd (snd c)) i = array_get m (g_index g))) \<and>
         (\<forall>re gs m. r_path e = Pattern re \<and>
            capture_meta (inst_class (r_responder e)) (r_key e) = Some gs \<and>
            RegExp_exec re pth = Some m \<and> \<not> gate_rejects e addr \<and>
            (\<forall>j < length gs. \<forall>g'. gs ! j = Some g' \<longrightarrow> g_required g' \<longrightarrow>
               truthy (array_get m (g_index g'))) \<longrightarrow>
            (\<exists>args. Responder_call e pth addr bdy log =
               (methods (inst_class (r_responder e)) (inst_args (r_responder e)) (r_key e) args,
                log @ [(oid (r_responder e), r_key e, args)]) \<and>
               array_get args i = array_get m (g_index g)))"
proof -
  have placed: "array_get (address_body_args e addr bdy) i =
           (if body_meta (inst_class (r_responder e)) (r_key e) = Some i then bdy else addr)"
    using assms(2) by (auto simp: array_get_address_body_args)
  have recv: "\<exists>re m. r_path e = Pattern re \<and> RegExp_exec re pth = Some m \<and>
                    array_get (snd (snd c)) i = array_get m (g_index g)"
    if "snd (Responder_call e pth addr bdy log) = log @ [c]" for c
  proof -
    from call_logged[OF that] obtain args where
      st: "capture_step e pth (address_body_args e addr bdy) = Continue args"
      and c: "c = (oid (r_responder e), r_key e, args)" by blast
    from capture_step_bound[OF st assms(1)] c show ?thesis by simp
  qed
  have live: "\<exists>args. Responder_call e pth addr bdy log =
               (methods (inst_class (r_responder e)) (inst_args (r_responder e)) (r_key e) args,
                log @ [(oid (r_responder e), r_key e, args)]) \<and>
               array_get args i = array_get m (g_index g)"
    if h: "r_path e = Pattern re \<and>
            capture_meta (inst_class (r_responder e)) (r_key e) = Some gs \<and>
            RegExp_exec re pth = Some m \<and> \<not> gate_rejects e addr \<and>
            (\<forall>j < length gs. \<forall>g'. gs ! j = Some g' \<longrightarrow> g_required g' \<longrightarrow>
               truthy (array_get m (g_index g')))" for re gs m
  proof -
    from h have h1: "r_path e = Pattern re"
      and h2: "capture_meta (inst_class (r_responder e)) (r_key e) = Some gs"
      and h3: "RegExp_exec re pth = Some m" and h4: "\<not> gate_rejects e addr"
      and good: "\<forall>j < length gs. required_ok m (gs ! j)"
      by (simp_all add: required_ok_iff)
    from assms(1) h1 h2 have b: "array_get gs i = Some g"
      by (simp add: capture_binding_def)
    from call_invokes[OF h1 h2 h3 h4 good, of bdy log] b show ?thesis by auto
  qed
  from placed recv live show ?thesis by blast
qed

theorem capture_overwrites_witness:
  "capture_binding (entry_of clash_class (Pattern items_re) M_get ''item'') 0 =
     Some \<lparr>g_index = 1, g_required = False\<rparr> \<and>
   address_meta clash_class ''item'' = Some 0 \<and>
   RegExp_exec items_re ''/items/42'' = Some [Some ''/items/42'', Some ''42''] \<and>
   (\<exists>args. Responder_call (entry_of clash_class (Pattern items_re) M_get ''item'')
              ''/items/42'' (Some ''alice'') (Some ''b'') [] = (Inr 200, [(0, ''item'', args)]) \<and>
            array_get args 0 = Some ''42'')"
proof -
  let ?e = "entry_of clash_class (Pattern items_re) M_get ''item''"
  let ?g = "\<lparr>g_index = 1, g_required = False\<rparr>"
  let ?m = "[Some ''/items/42'', Some ''42'']"
  have h1: "capture_binding ?e 0 = Some ?g"
    by (simp add: capture_binding_def class_defs fixture_defs)
  have am: "address_meta clash_class ''item'' = Some 0"
    by (simp add: class_defs fixture_defs)
  have h2: "address_meta (inst_class (r_responder ?e)) (r_key ?e) = Some 0 \<or>
            body_meta (inst_class (r_responder ?e)) (r_key ?e) = Some 0"
    by (simp add: class_defs fixture_defs)
  have pre: "r_path ?e = Pattern items_re \<and>
            capture_meta (inst_class (r_responder ?e)) (r_key ?e) = Some [Some ?g] \<and>
            RegExp_exec items_re ''/items/42'' = Some ?m \<and> \<not> gate_rejects ?e (Some ''alice'') \<and>
            (\<forall>j < length [Some ?g]. \<forall>g'. [Some ?g] ! j = Some g' \<longrightarrow> g_required g' \<longrightarrow>
               truthy (array_get ?m (g_index g')))"
    by (simp add: exec_items_42 gate_rejects_def truthy_def class_defs fixture_defs)
  have ev: "\<And>args. methods (inst_class (r_responder ?e)) (inst_args (r_responder ?e))
              (r_key ?e) args = Inr 200"
    by (simp add: class_defs fixture_defs)
  have ev': "oid (r_responder ?e) = 0" "r_key ?e = ''item''"
    by (simp_all add: entry_of_def)
  have g: "array_get ?m (g_index ?g) = Some ''42''" by (simp add: array_get_def)
  from capture_overwrites[OF h1 h2, of "Some ''alice''" "Some ''b''" "''/items/42''" "[]"] pre
  obtain args where c: "Responder_call ?e ''/items/42'' (Some ''alice'') (Some ''b'') [] =
            (methods (inst_class (r_responder ?e)) (inst_args (r_responder ?e)) (r_key ?e) args,
             [] @ [(oid (r_responder ?e), r_key ?e, args)])"
    and v: "array_get args 0 = array_get ?m (g_index ?g)"
    by blast
  from c[unfolded ev, unfolded ev' append_Nil] v[unfolded g] h1 am exec_items_42
  show ?thesis by blast
qed

section \<open>Configuration faults\<close>

text \<open>
  Claim C8 says that a capture binding that refers to a group which the pattern does
  not have makes \<^verbatim>\<open>call\<close> raise a fault. This fails: reading the missing group from the
  match result gives \<^verbatim>\<open>undefined\<close>, so the binding is treated as one whose group did not
  take part in the match. With one group in the pattern and a binding to group 5, the
  call returns the 400 response when the binding is required and calls the handler with
  an absent value when it is optional.
\<close>

theorem missing_group_counterexample:
  "ngroups items_re = 1 \<and>
   capture_meta (bad_group_class True) ''item'' = Some [Some \<lparr>g_index = 5, g_required = True\<rparr>] \<and>
   Responder_call (entry_of (bad_group_class True) (Pattern items_re) M_get ''item'')
     ''/items/42'' None None [] = (Inr 400, []) \<and>
   capture_meta (bad_group_class False) ''item'' = Some [Some \<lparr>g_index = 5, g_required = False\<rparr>] \<and>
   Responder_call (entry_of (bad_group_class False) (Pattern items_re) M_get ''item'')
     ''/items/42'' None None [] = (Inr 200, [(0, ''item'', [None])])"
  by (simp add: ngroups_items exec_items_42 call_defs class_defs fixture_defs)

text \<open>
  Claim C8, amended. If some registered class has no route metadata when \<^verbatim>\<open>init\<close>
  reads it, \<^verbatim>\<open>init\<close> raises a TypeError. A capture binding that refers to a group which
  the pattern does not have raises nothing: its group reads as absent, so that (when the
  gate does not fire and the pattern matches) \<^verbatim>\<open>call\<close> returns the 400 response if the
  binding is required and is the first one to fail, and calls the handler with an absent
  value at that parameter index if the binding is optional and no required binding
  fails.
\<close>

theorem configuration_faults:
  "((\<exists>r \<in> set (responderConstructors reg). path_meta r = None) \<longrightarrow>
      fst (Responders_init injections h reg) = Some TypeError) \<and>
   (r_path e = Pattern re \<and>
    capture_meta (inst_class (r_responder e)) (r_key e) = Some gs \<and>
    RegExp_exec re pth = Some m \<and> \<not> gate_rejects e addr \<and>
    n < length gs \<and> gs ! n = Some g \<and> ngroups re < g_index g \<longrightarrow>
      array_get m (g_index g) = None \<and>
      (g_required g \<and>
       (\<forall>j < n. \<forall>g'. gs ! j = Some g' \<longrightarrow> g_required g' \<longrightarrow>
          truthy (array_get m (g_index g'))) \<longrightarrow>
         Responder_call e pth addr bdy log = (Inr (r400 (r_responses e)), log)) \<and>
      (\<not> g_required g \<and>
       (\<forall>j < length gs. \<forall>g'. gs ! j = Some g' \<longrightarrow> g_required g' \<longrightarrow>
          truthy (array_get m (g_index g'))) \<longrightarrow>
         (\<exists>args. Responder_call e pth addr bdy log =
            (methods (inst_class (r_responder e)) (inst_args (r_responder e)) (r_key e) args,
             log @ [(oid (r_responder e), r_key e, args)]) \<and>
            array_get args n = None)))"
proof -
  have init: "fst (Responders_init injections h reg) = Some TypeError"
    if "\<exists>r \<in> set (responderConstructors reg). path_meta r = None"
    using init_loop_fault[OF that, of injections "responses reg" h "responderEntries reg"]
    by (cases "init_loop injections (responses reg) (responderConstructors reg) h
                 (responderEntries reg)") (simp add: Responders_init_def)
  have call: "array_get m (g_index g) = None \<and>
      (g_required g \<and>
       (\<forall>j < n. \<forall>g'. gs ! j = Some g' \<longrightarrow> g_required g' \<longrightarrow>
          truthy (array_get m (g_index g'))) \<longrightarrow>
         Responder_call e pth addr bdy log = (Inr (r400 (r_responses e)), log)) \<and>
      (\<not> g_required g \<and>
       (\<forall>j < length gs. \<forall>g'. gs ! j = Some g' \<longrightarrow> g_required g' \<longrightarrow>
          truthy (array_get m (g_index g'))) \<longrightarrow>
         (\<exists>args. Responder_call e pth addr bdy log =
            (methods (inst_class (r_responder e)) (inst_args (r_responder e)) (r_key e) args,
             log @ [(oid (r_responder e), r_key e, args)]) \<and>
            array_get args n = None))"
    if h: "r_path e = Pattern re \<and>
      capture_meta (inst_class (r_responder e)) (r_key e) = Some gs \<and>
      RegExp_exec re pth = Some m \<and> \<not> gate_rejects e addr \<and>
      n < length gs \<and> gs ! n = Some g \<and> ngroups re < g_index g"
  proof -
    from h have h1: "r_path e = Pattern re"
      and h2: "capture_meta (inst_class (r_responder e)) (r_key e) = Some gs"
      and h3: "RegExp_exec re pth = Some m" and h4: "\<not> gate_rejects e addr"
      and h5: "n < length gs" and h6: "gs ! n = Some g" and h7: "ngroups re < g_index g"
      by simp_all
    from RegExp_exec_length[OF h3] h7 have absent: "array_get m (g_index g) = None"
      by (simp add: array_get_def)
    have req: "Responder_call e pth addr bdy log = (Inr (r400 (r_responses e)), log)"
      if "g_required g" and
        "\<forall>j < n. \<forall>g'. gs ! j = Some g' \<longrightarrow> g_required g' \<longrightarrow> truthy (array_get m (g_index g'))"
    proof (rule call_rejects[OF h1 h2 h3 h4 h5])
      show "\<not> required_ok m (gs ! n)"
        using that(1) h6 absent by (simp add: required_ok_def truthy_def)
      show "\<forall>j < n. required_ok m (gs ! j)"
        using that(2) by (simp add: required_ok_iff)
    qed
    have opt: "\<exists>args. Responder_call e pth addr bdy log =
            (methods (inst_class (r_responder e)) (inst_args (r_responder e)) (r_key e) args,
             log @ [(oid (r_responder e), r_key e, args)]) \<and>
            array_get args n = None"
      if "\<not> g_required g" and
        "\<forall>j < length gs. \<forall>g'. gs ! j = Some g' \<longrightarrow> g_required g' \<longrightarrow>
            truthy (array_get m (g_index g'))"
    proof -
      from that(2) have good: "\<forall>j < length gs. required_ok m (gs ! j)"
        by (simp add: required_ok_iff)
      from h5 h6 have "array_get gs n = Some g" by (simp add: array_get_def)
      with call_invokes[OF h1 h2 h3 h4 good, of bdy log] absent show ?thesis by auto
    qed
    from absent req opt show ?thesis by blast
  qed
  from init call show ?thesis by blast
qed

theorem configuration_faults_witness:
  "(\<exists>r \<in> set (responderConstructors (Responders_register plain_class (Responders_new the_responses))).
      path_meta r = None) \<and>
   fst (Responders_init [] 0 (Responders_register plain_class (Responders_new the_responses))) =
     Some TypeError \<and>
   ngroups items_re < g_index \<lparr>g_index = 5, g_required = True\<rparr> \<and>
   Responder_call (entry_of (bad_group_class True) (Pattern items_re) M_get ''item'')
     ''/items/42'' None None [] = (Inr 400, [])"
proof -
  let ?reg = "Responders_register plain_class (Responders_new the_responses)"
  let ?e = "entry_of (bad_group_class True) (Pattern items_re) M_get ''item''"
  let ?g = "\<lparr>g_index = 5, g_required = True\<rparr>"
  have i: "\<exists>r \<in> set (responderConstructors ?reg). path_meta r = None"
    by (simp add: fixture_defs)
  have pre: "r_path ?e = Pattern items_re \<and>
    capture_meta (inst_class (r_responder ?e)) (r_key ?e) = Some [Some ?g] \<and>
    RegExp_exec items_re ''/items/42'' = Some [Some ''/items/42'', Some ''42''] \<and>
    \<not> gate_rejects ?e None \<and>
    0 < length [Some ?g] \<and> [Some ?g] ! 0 = Some ?g \<and> ngroups items_re < g_index ?g"
    by (simp add: exec_items_42 ngroups_items gate_rejects_def class_defs fixture_defs)
  have first: "g_required ?g \<and>
       (\<forall>j < (0::nat). \<forall>g'. [Some ?g] ! j = Some g' \<longrightarrow> g_required g' \<longrightarrow>
          truthy (array_get [Some ''/items/42'', Some ''42''] (g_index g')))"
    by simp
  have r: "r400 (r_responses ?e) = 400" by (simp add: fixture_defs)
  note t = configuration_faults[where reg = ?reg and injections = "[]" and h = 0
      and e = ?e and re = items_re and gs = "[Some ?g]" and pth = "''/items/42''"
      and m = "[Some ''/items/42'', Some ''42'']" and addr = None and n = 0 and g = ?g
      and bdy = None and log = "[]"]
  from t i have a: "fst (Responders_init [] 0 ?reg) = Some TypeError" by blast
  from t pre first have "Responder_call ?e ''/items/42'' None None [] =
      (Inr (r400 (r_responses ?e)), [])" by blast
  with a i pre show ?thesis unfolding r by blast
qed

end
